theory Spec2Isabelle
  imports Complex_Main
begin

section \<open>mailpy-monitor: the alarm evaluation of an Entry (src/app/commons/entities.py)\<close>

text \<open>
  The development embeds the classes \<open>Group\<close>, \<open>DummyPV\<close> and \<open>Entry\<close> of
  \<^verbatim>\<open>src/app/commons/entities.py\<close>. Python objects become records, an attribute that
  the constructor may leave unset becomes an \<open>option\<close> (reading \<open>None\<close> is Python's
  AttributeError), every raise becomes a value \<open>Inl\<close> of a sum type, and mutation of
  \<open>self\<close> becomes an Entry that is returned next to the result. Python floats are
  modelled by the real numbers they denote (the non-finite floats are outside the
  model); \<open>time.time()\<close> is an argument. Calls of the logger have no effect on the state
  and are left out. The text of a message matters in the constructor only, where
  formatting it reads \<open>self._pv\<close> before that attribute is assigned.
\<close>

subsection \<open>Exceptions\<close>

datatype exn =
    EntryException
  | ValueError
  | AttributeError
  | IndexError
  | KeyError
  | Full

definition attr :: "'a option \<Rightarrow> exn + 'a" where
  \<comment> \<open>reading an attribute that may never have been assigned\<close>
  "attr a = (case a of None \<Rightarrow> Inl AttributeError | Some x \<Rightarrow> Inr x)"

definition getitem :: "'a list \<Rightarrow> int \<Rightarrow> exn + 'a" where
  \<comment> \<open>\<open>xs[i]\<close> on a Python list: the index \<open>-k\<close> is the \<open>k\<close>-th item from the end\<close>
  "getitem xs i =
     (if 0 \<le> i \<and> i < int (length xs) then Inr (xs ! nat i)
      else if i < 0 \<and> - int (length xs) \<le> i then Inr (xs ! nat (int (length xs) + i))
      else Inl IndexError)"

subsection \<open>The collaborators that are not in entities.py\<close>

record event_args =
  ev_pvname :: string
  ev_specified_value_message :: string
  ev_unit :: string
  ev_warning :: string
  ev_subject :: string
  ev_emails :: string
  ev_condition :: string
  ev_value_measured :: string

text \<open>
  The names of module \<open>condition\<close>, the constructor of \<open>event.EmailEvent\<close> and three
  builtins of Python are parameters of the model: \<open>py_float\<close> is \<open>float(s)\<close> (\<open>None\<close> when
  it raises ValueError), \<open>str_float\<close> is the text an f-string gives a float and \<open>fmt4\<close> is
  \<open>"{:.4}".format(value)\<close>. An EmailEvent object is taken to be truthy.
\<close>

record 'ev env =
  OutOfRange :: string
  SuperiorThan :: string
  InferiorThan :: string
  IncreasingStep :: string
  DecreasingStep :: string
  py_float :: "string \<Rightarrow> real option"
  str_float :: "real \<Rightarrow> string"
  fmt4 :: "real \<Rightarrow> string"
  EmailEvent :: "event_args \<Rightarrow> exn + 'ev"

definition names_distinct :: "'ev env \<Rightarrow> bool" where
  "names_distinct env =
     distinct [OutOfRange env, SuperiorThan env, InferiorThan env, IncreasingStep env,
       DecreasingStep env]"

text \<open>
  The queue handed to an Entry is a \<open>multiprocessing.Queue\<close>: \<open>put(event, block=False)\<close>
  raises \<open>queue.Full\<close> when the queue holds \<open>maxsize\<close> items (\<open>maxsize = 0\<close> is
  unbounded).
\<close>

record 'ev sms_queue =
  items :: "'ev list"
  maxsize :: nat

definition put_nowait :: "'ev sms_queue \<Rightarrow> 'ev \<Rightarrow> exn + 'ev sms_queue" where
  "put_nowait q ev =
     (if 0 < maxsize q \<and> maxsize q \<le> length (items q) then Inl Full
      else Inr (q\<lparr>items := items q @ [ev]\<rparr>))"

subsection \<open>Group, DummyPV and Entry\<close>

record Group =
  name :: string
  enabled :: bool

datatype pv =
    PV string bool     \<comment> \<open>\<open>epics.PV\<close>: its pvname and its \<open>connected\<close> flag\<close>
  | DummyPV string     \<comment> \<open>class \<open>DummyPV\<close>: a pvname and nothing else\<close>

fun pvname :: "pv \<Rightarrow> string" where
  "pvname (PV n c) = n"
| "pvname (DummyPV n) = n"

fun connected :: "pv \<Rightarrow> exn + bool" where
  "connected (PV n c) = Inr c"
| "connected (DummyPV n) = Inl AttributeError"

record Entry =
  pv :: "pv option"
  entry_id :: "string option"
  condition :: string
  alarm_values :: string
  unit :: string
  warning_message :: string
  subject :: string
  email_timeout :: real
  emails :: string
  group :: Group
  step_level :: int
  step_values :: "real list"
  last_event_time :: real
  alarm_min :: "real option"
  alarm_max :: "real option"
  min_level :: "int option"
  max_level :: "int option"

subsection \<open>\<open>Entry._find_next_level\<close>\<close>

fun find_next_level_loop :: "real list \<Rightarrow> real \<Rightarrow> int \<Rightarrow> int" where
  "find_next_level_loop [] value loop_level = loop_level"
| "find_next_level_loop (step_value # rest) value loop_level =
     (if value < step_value then loop_level
      else find_next_level_loop rest value (loop_level + 1))"

definition find_next_level :: "Entry \<Rightarrow> real \<Rightarrow> int" where
  "find_next_level e value = find_next_level_loop (step_values e) value 0"

subsection \<open>\<open>Entry.handle_condition\<close>\<close>

text \<open>The four tests of the IncreasingStep branch, in the order of the source.\<close>

definition going_up ::
  "'ev env \<Rightarrow> real \<Rightarrow> real \<Rightarrow> Entry \<Rightarrow> Entry \<times> (exn + string option)" where
  "going_up env value next_step_limiar e =
     (if value \<ge> next_step_limiar then
        (case attr (max_level e) of
           Inl x \<Rightarrow> (e, Inl x)
         | Inr m \<Rightarrow>
             if step_level e + 1 \<le> m then
               (let e' = e\<lparr>step_level := find_next_level e value\<rparr>
                in case getitem (step_values e') 0 of
                     Inl x \<Rightarrow> (e', Inl x)
                   | Inr s0 \<Rightarrow> (e', Inr (Some (''lower than '' @ str_float env s0 @ unit e'))))
             else (e, Inr None))
      else (e, Inr None))"

definition at_maximum :: "real \<Rightarrow> real \<Rightarrow> Entry \<Rightarrow> exn + unit" where
  "at_maximum value next_step_limiar e =
     (if value \<ge> next_step_limiar then
        (case attr (max_level e) of Inl x \<Rightarrow> Inl x | Inr m \<Rightarrow> Inr ())
      else Inr ())"

definition at_lowest :: "real \<Rightarrow> real \<Rightarrow> Entry \<Rightarrow> exn + unit" where
  "at_lowest value next_step_limiar e =
     (if value < next_step_limiar then
        (case attr (min_level e) of Inl x \<Rightarrow> Inl x | Inr m \<Rightarrow> Inr ())
      else Inr ())"

definition going_down :: "real \<Rightarrow> real \<Rightarrow> Entry \<Rightarrow> Entry \<times> (exn + unit)" where
  "going_down value next_step_limiar e =
     (if value < next_step_limiar then
        (case attr (min_level e) of
           Inl x \<Rightarrow> (e, Inl x)
         | Inr m \<Rightarrow>
             if step_level e \<noteq> m then
               (case getitem (step_values e) (step_level e - 1) of
                  Inl x \<Rightarrow> (e, Inl x)
                | Inr below \<Rightarrow>
                    if value < below then (e\<lparr>step_level := find_next_level e value\<rparr>, Inr ())
                    else (e, Inr ()))
             else (e, Inr ()))
      else (e, Inr ()))"

definition increasing_step ::
  "'ev env \<Rightarrow> real \<Rightarrow> Entry \<Rightarrow> Entry \<times> (exn + string option)" where
  "increasing_step env value e =
     (case getitem (step_values e) (step_level e) of
        Inl x \<Rightarrow> (e, Inl x)
      | Inr next_step_limiar \<Rightarrow>
          (case going_up env value next_step_limiar e of
             (e1, Inl x) \<Rightarrow> (e1, Inl x)
           | (e1, Inr msg) \<Rightarrow>
               (case at_maximum value next_step_limiar e1 of
                  Inl x \<Rightarrow> (e1, Inl x)
                | Inr u \<Rightarrow>
                    (case at_lowest value next_step_limiar e1 of
                       Inl x \<Rightarrow> (e1, Inl x)
                     | Inr u' \<Rightarrow>
                         (case going_down value next_step_limiar e1 of
                            (e2, Inl x) \<Rightarrow> (e2, Inl x)
                          | (e2, Inr u'') \<Rightarrow> (e2, Inr msg))))))"

text \<open>
  The tests of the three threshold conditions. Each reads the attributes it names, in
  the order Python evaluates them (\<open>or\<close> and \<open>and\<close> stop at the first operand that
  decides).
\<close>

definition out_of_range_violated :: "Entry \<Rightarrow> real \<Rightarrow> exn + bool" where
  "out_of_range_violated e value =
     (case attr (alarm_min e) of
        Inl x \<Rightarrow> Inl x
      | Inr lo \<Rightarrow>
          if value < lo then Inr True
          else (case attr (alarm_max e) of Inl x \<Rightarrow> Inl x | Inr hi \<Rightarrow> Inr (value > hi)))"

definition superior_than_violated :: "Entry \<Rightarrow> real \<Rightarrow> exn + bool" where
  "superior_than_violated e value =
     (case attr (alarm_max e) of Inl x \<Rightarrow> Inl x | Inr hi \<Rightarrow> Inr (value > hi))"

definition inferior_than_violated :: "Entry \<Rightarrow> real \<Rightarrow> exn + bool" where
  "inferior_than_violated e value =
     (case attr (alarm_min e) of Inl x \<Rightarrow> Inl x | Inr lo \<Rightarrow> Inr (value < lo))"

definition out_of_range_message :: "'ev env \<Rightarrow> Entry \<Rightarrow> exn + string" where
  "out_of_range_message env e =
     (case attr (alarm_min e) of
        Inl x \<Rightarrow> Inl x
      | Inr lo \<Rightarrow>
          (case attr (alarm_max e) of
             Inl x \<Rightarrow> Inl x
           | Inr hi \<Rightarrow>
               Inr (''from '' @ str_float env lo @ unit e @ '' to '' @ str_float env hi
                      @ '' '' @ unit e)))"

definition superior_than_message :: "'ev env \<Rightarrow> Entry \<Rightarrow> exn + string" where
  "superior_than_message env e =
     (case attr (alarm_min e) of
        Inl x \<Rightarrow> Inl x
      | Inr lo \<Rightarrow> Inr (''lower than '' @ str_float env lo @ unit e))"

definition inferior_than_message :: "'ev env \<Rightarrow> Entry \<Rightarrow> exn + string" where
  "inferior_than_message env e =
     (case attr (alarm_min e) of
        Inl x \<Rightarrow> Inl x
      | Inr lo \<Rightarrow> Inr (''higher than '' @ str_float env lo @ unit e))"

definition with_message :: "Entry \<Rightarrow> exn + string \<Rightarrow> Entry \<times> (exn + string option)" where
  "with_message e m = (case m of Inl x \<Rightarrow> (e, Inl x) | Inr s \<Rightarrow> (e, Inr (Some s)))"

text \<open>
  Lines 205 to 245 of \<open>handle_condition\<close>: the \<open>if\<close>/\<open>elif\<close> chain that computes the
  variable \<open>specified_value_message\<close> and moves \<open>step_level\<close>. It runs outside the
  \<open>try\<close> block, so what it raises leaves \<open>handle_condition\<close>.
\<close>

definition specified_value_message ::
  "'ev env \<Rightarrow> Entry \<Rightarrow> real \<Rightarrow> Entry \<times> (exn + string option)" where
  "specified_value_message env e value =
     (case (if condition e = OutOfRange env then out_of_range_violated e value else Inr False) of
        Inl x \<Rightarrow> (e, Inl x)
      | Inr True \<Rightarrow> with_message e (out_of_range_message env e)
      | Inr False \<Rightarrow>
     (case (if condition e = SuperiorThan env then superior_than_violated e value
            else Inr False) of
        Inl x \<Rightarrow> (e, Inl x)
      | Inr True \<Rightarrow> with_message e (superior_than_message env e)
      | Inr False \<Rightarrow>
     (case (if condition e = InferiorThan env then inferior_than_violated e value
            else Inr False) of
        Inl x \<Rightarrow> (e, Inl x)
      | Inr True \<Rightarrow> with_message e (inferior_than_message env e)
      | Inr False \<Rightarrow>
          if condition e = IncreasingStep env then increasing_step env value e
          else (e, Inr None))))"

text \<open>
  Lines 247 to 266: the event is built inside \<open>try\<close>, and \<open>finally: return event\<close>
  returns the initial \<open>None\<close> whatever was raised there. An empty message is falsy.
\<close>

definition make_event :: "'ev env \<Rightarrow> Entry \<Rightarrow> real \<Rightarrow> string option \<Rightarrow> 'ev option" where
  "make_event env e value msg =
     (case msg of
        None \<Rightarrow> None
      | Some m \<Rightarrow>
          if m = [] then None
          else (case pv e of
                  None \<Rightarrow> None
                | Some p \<Rightarrow>
                    (case EmailEvent env
                            \<lparr>ev_pvname = pvname p, ev_specified_value_message = m,
                             ev_unit = unit e, ev_warning = warning_message e,
                             ev_subject = subject e, ev_emails = emails e,
                             ev_condition = condition e, ev_value_measured = fmt4 env value\<rparr> of
                       Inl x \<Rightarrow> None
                     | Inr ev \<Rightarrow> Some ev)))"

definition handle_condition ::
  "'ev env \<Rightarrow> Entry \<Rightarrow> real \<Rightarrow> Entry \<times> (exn + 'ev option)" where
  "handle_condition env e value =
     (case specified_value_message env e value of
        (e', Inl x) \<Rightarrow> (e', Inl x)
      | (e', Inr msg) \<Rightarrow> (e', Inr (make_event env e' value msg)))"

subsection \<open>\<open>Entry.check_alarms\<close>\<close>

text \<open>
  The state is the Entry and the queue it was given; \<open>now\<close> is what \<open>time.time()\<close>
  returns and \<open>kwargs\<close> are the keyword arguments of the callback. The method returns
  \<open>None\<close> on every path that returns, so the result is \<open>Inr ()\<close> or the exception that
  leaves the method.
\<close>

definition check_alarms_locked ::
  "'ev env \<Rightarrow> Entry \<Rightarrow> 'ev sms_queue \<Rightarrow> real \<Rightarrow> (string \<rightharpoonup> real)
     \<Rightarrow> (Entry \<times> 'ev sms_queue) \<times> (exn + unit)" where
  \<comment> \<open>lines 295 to 307: the \<open>try\<close> block, which catches \<open>queue.Full\<close> only\<close>
  "check_alarms_locked env e q timestamp kwargs =
     (case kwargs ''value'' of
        None \<Rightarrow> ((e, q), Inl KeyError)
      | Some value \<Rightarrow>
          (case handle_condition env e value of
             (e', Inl x) \<Rightarrow> ((e', q), Inl x)
           | (e', Inr None) \<Rightarrow> ((e', q), Inr ())
           | (e', Inr (Some event)) \<Rightarrow>
               (case put_nowait q event of
                  Inl x \<Rightarrow> if x = Full then ((e', q), Inr ()) else ((e', q), Inl x)
                | Inr q' \<Rightarrow> ((e'\<lparr>last_event_time := timestamp\<rparr>, q'), Inr ()))))"

definition check_alarms ::
  "'ev env \<Rightarrow> Entry \<Rightarrow> 'ev sms_queue \<Rightarrow> real \<Rightarrow> (string \<rightharpoonup> real)
     \<Rightarrow> (Entry \<times> 'ev sms_queue) \<times> (exn + unit)" where
  "check_alarms env e q now kwargs =
     (if \<not> enabled (group e) then ((e, q), Inr ())
      else
        (case (case pv e of None \<Rightarrow> Inl AttributeError | Some p \<Rightarrow> connected p) of
           Inl x \<Rightarrow> ((e, q), Inl x)
         | Inr c \<Rightarrow>
             if \<not> c then ((e, q), Inr ())
             else
               (let timestamp = now; timedelta = timestamp - last_event_time e
                in if timedelta < email_timeout e then ((e, q), Inr ())
                   else check_alarms_locked env e q timestamp kwargs)))"

subsection \<open>The string methods used by the constructor\<close>

definition lower_char :: "char \<Rightarrow> char" where
  "lower_char c =
     (let n = (of_char c :: nat) in if 65 \<le> n \<and> n \<le> 90 then char_of (n + 32) else c)"

definition lower :: "string \<Rightarrow> string" where
  \<comment> \<open>\<open>str.lower()\<close> on ASCII text\<close>
  "lower s = map lower_char s"

definition isspace :: "char \<Rightarrow> bool" where
  "isspace c = (let n = (of_char c :: nat) in (9 \<le> n \<and> n \<le> 13) \<or> (28 \<le> n \<and> n \<le> 32))"

definition strip :: "string \<Rightarrow> string" where
  \<comment> \<open>\<open>str.strip()\<close>: white space removed at both ends\<close>
  "strip s = rev (dropWhile isspace (rev (dropWhile isspace s)))"

fun split :: "char \<Rightarrow> string \<Rightarrow> string list" where
  \<comment> \<open>\<open>s.split(sep)\<close> for a separator of one character: never an empty list\<close>
  "split sep [] = [[]]"
| "split sep (c # cs) =
     (if c = sep then [] # split sep cs
      else (case split sep cs of [] \<Rightarrow> [[c]] | w # ws \<Rightarrow> (c # w) # ws))"

subsection \<open>\<open>Entry.__init__\<close> and the four \<open>_init_*\<close> methods\<close>

text \<open>The arguments of the constructor (the queue is kept outside the Entry).\<close>

record config =
  cfg_pvname :: string
  cfg_emails :: string
  cfg_condition :: string
  cfg_alarm_values :: string
  cfg_unit :: string
  cfg_warning_message :: string
  cfg_subject :: string
  cfg_email_timeout :: real
  cfg_group :: Group
  cfg_id :: "string option"
  cfg_dummy :: bool

definition Group_str :: "Group \<Rightarrow> string" where
  "Group_str g =
     ''<Group='' @ [CHR 0x22] @ name g @ [CHR 0x22] @ '' enabled=''
       @ (if enabled g then ''True'' else ''False'') @ ''>''"

definition pvname_or_None :: "Entry \<Rightarrow> exn + string" where
  \<comment> \<open>\<open>self._pv.pvname if self._pv else None\<close>: \<open>self._pv\<close> is read first\<close>
  "pvname_or_None e = (case pv e of None \<Rightarrow> Inl AttributeError | Some p \<Rightarrow> Inr (pvname p))"

definition Entry_str :: "Entry \<Rightarrow> exn + string" where
  \<comment> \<open>\<open>Entry.__str__\<close>\<close>
  "Entry_str e =
     (case pvname_or_None e of
        Inl x \<Rightarrow> Inl x
      | Inr n \<Rightarrow>
          Inr (''<Entry='' @ (case entry_id e of None \<Rightarrow> ''None'' | Some i \<Rightarrow> i)
                 @ '' pvname='' @ [CHR 0x22] @ n @ [CHR 0x22]
                 @ '' group='' @ Group_str (group e)
                 @ '' condition='' @ [CHR 0x22] @ condition e @ [CHR 0x22]
                 @ '' alarm_values='' @ alarm_values e
                 @ '' emails='' @ emails e @ [CHR 0x22] @ ''>''))"

definition raise_EntryException :: "exn + string \<Rightarrow> exn" where
  \<comment> \<open>\<open>raise _EntryException(text)\<close>: the text is formatted before anything is raised\<close>
  "raise_EntryException text = (case text of Inl x \<Rightarrow> x | Inr s \<Rightarrow> EntryException)"

fun floats :: "(string \<Rightarrow> real option) \<Rightarrow> string list \<Rightarrow> exn + real list" where
  \<comment> \<open>\<open>[float(val) for val in vals]\<close>\<close>
  "floats f [] = Inr []"
| "floats f (val # vals) =
     (case f val of
        None \<Rightarrow> Inl ValueError
      | Some x \<Rightarrow> (case floats f vals of Inl err \<Rightarrow> Inl err | Inr xs \<Rightarrow> Inr (x # xs)))"

definition init_out_of_range :: "'ev env \<Rightarrow> Entry \<Rightarrow> exn + Entry" where
  "init_out_of_range env e =
     (case split (CHR '':'') (alarm_values e) of
        [mn, mx] \<Rightarrow>
          (case py_float env mn of
             None \<Rightarrow> Inl ValueError
           | Some lo \<Rightarrow>
               (case py_float env mx of
                  None \<Rightarrow> Inl ValueError
                | Some hi \<Rightarrow>
                    (let e' = e\<lparr>alarm_min := Some lo, alarm_max := Some hi\<rparr>
                     in if lo \<ge> hi then
                          Inl (raise_EntryException
                            (case pvname_or_None e' of
                               Inl x \<Rightarrow> Inl x
                             | Inr n \<Rightarrow>
                                 Inr (''Cannot create entry for '' @ n @ '' with values ''
                                        @ alarm_values e' @ ''. Min must be lesser than max'')))
                        else Inr e')))
      | parts \<Rightarrow> Inl ValueError)"

definition init_superior_than :: "'ev env \<Rightarrow> Entry \<Rightarrow> exn + Entry" where
  "init_superior_than env e =
     (case py_float env (alarm_values e) of
        None \<Rightarrow> Inl ValueError
      | Some x \<Rightarrow> Inr (e\<lparr>alarm_max := Some x\<rparr>))"

definition init_inferior_than :: "'ev env \<Rightarrow> Entry \<Rightarrow> exn + Entry" where
  "init_inferior_than env e =
     (case py_float env (alarm_values e) of
        None \<Rightarrow> Inl ValueError
      | Some x \<Rightarrow> Inr (e\<lparr>alarm_min := Some x\<rparr>))"

fun steps_sorted :: "real \<Rightarrow> real list \<Rightarrow> bool" where
  \<comment> \<open>the loop over \<open>step_values[1:]\<close>: False when it reaches the \<open>raise\<close>\<close>
  "steps_sorted s [] = True"
| "steps_sorted s (v # vs) = (if s \<ge> v then False else steps_sorted v vs)"

definition init_increasing_step :: "'ev env \<Rightarrow> Entry \<Rightarrow> exn + Entry" where
  "init_increasing_step env e =
     (case floats (py_float env) (split (CHR '':'') (alarm_values e)) of
        Inl x \<Rightarrow> Inl x
      | Inr vals \<Rightarrow>
          (let e' = e\<lparr>step_level := 0, step_values := vals\<rparr>
           in case getitem (step_values e') 0 of
                Inl x \<Rightarrow> Inl x
              | Inr s \<Rightarrow>
                  if steps_sorted s (tl (step_values e')) then
                    Inr (e'\<lparr>min_level := Some 0,
                            max_level := Some (int (length (step_values e')))\<rparr>)
                  else
                    Inl (raise_EntryException
                      (case attr (pv e') of
                         Inl x \<Rightarrow> Inl x
                       | Inr p \<Rightarrow>
                           Inr (''Failed to crate entry for '' @ pvname p @ '', step values ''
                                  @ alarm_values e' @ '' are not sorted'')))))"

text \<open>
  Lines 71 to 88: the attributes assigned before the condition is looked at. \<open>now\<close> is
  what \<open>time.time()\<close> returns; \<open>self._pv\<close> is only annotated there, not assigned.
\<close>

definition Entry_attributes :: "real \<Rightarrow> config \<Rightarrow> Entry" where
  "Entry_attributes now cfg =
     \<lparr>pv = None, entry_id = cfg_id cfg, condition = strip (lower (cfg_condition cfg)),
      alarm_values = cfg_alarm_values cfg, unit = cfg_unit cfg,
      warning_message = cfg_warning_message cfg, subject = cfg_subject cfg,
      email_timeout = cfg_email_timeout cfg, emails = cfg_emails cfg,
      group = cfg_group cfg, step_level = 0, step_values = [],
      last_event_time = now - cfg_email_timeout cfg,
      alarm_min = None, alarm_max = None, min_level = None, max_level = None\<rparr>"

text \<open>
  Lines 90 to 109: \<open>conn\<close> is the connection state of the new \<open>epics.PV\<close>, which is
  assigned last, after the \<open>_init_*\<close> call returned.
\<close>

definition Entry_init :: "'ev env \<Rightarrow> real \<Rightarrow> bool \<Rightarrow> config \<Rightarrow> exn + Entry" where
  "Entry_init env now conn cfg =
     (let e = Entry_attributes now cfg;
          r = (if condition e = OutOfRange env then init_out_of_range env e
               else if condition e = SuperiorThan env then init_superior_than env e
               else if condition e = InferiorThan env then init_inferior_than env e
               else if condition e = IncreasingStep env then init_increasing_step env e
               else Inl (raise_EntryException
                      (case Entry_str e of
                         Inl x \<Rightarrow> Inl x
                       | Inr s \<Rightarrow> Inr (''Invalid condition '' @ condition e @ '' for entry '' @ s))))
      in case r of
           Inl x \<Rightarrow> Inl x
         | Inr e' \<Rightarrow>
             Inr (e'\<lparr>pv := Some (if \<not> cfg_dummy cfg then PV (strip (cfg_pvname cfg)) conn
                                  else DummyPV (strip (cfg_pvname cfg)))\<rparr>))"

subsection \<open>A concrete environment, to run the model\<close>

text \<open>
  \<open>float_dec\<close> is \<open>float(s)\<close> on plain decimal literals (an optional sign, digits, at
  most one point), which is all the runs below need. The condition names are the
  variant names of the specification in lower case, the formatting functions are kept
  trivial and \<open>EmailEvent\<close> returns its arguments.
\<close>

definition digit :: "char \<Rightarrow> bool" where
  "digit c = (let n = (of_char c :: nat) in 48 \<le> n \<and> n \<le> 57)"

fun digits_value :: "nat \<Rightarrow> string \<Rightarrow> nat" where
  "digits_value acc [] = acc"
| "digits_value acc (c # cs) = digits_value (10 * acc + (of_char c - 48)) cs"

definition float_dec :: "string \<Rightarrow> real option" where
  "float_dec s =
     (let t = strip s;
          neg = (t \<noteq> [] \<and> hd t = CHR ''-'');
          u = (if neg then tl t else t);
          ip = takeWhile (\<lambda>c. c \<noteq> CHR ''.'') u;
          fp = drop (length ip + 1) u
      in if ip @ fp \<noteq> [] \<and> list_all digit (ip @ fp) then
           Some ((if neg then - 1 else 1) * real (digits_value 0 (ip @ fp)) / 10 ^ length fp)
         else None)"

definition demo_env :: "event_args env" where
  "demo_env =
     \<lparr>OutOfRange = ''outofrange'', SuperiorThan = ''superiorthan'',
      InferiorThan = ''inferiorthan'', IncreasingStep = ''increasingstep'',
      DecreasingStep = ''decreasingstep'', py_float = float_dec,
      str_float = (\<lambda>x. ''<float>''), fmt4 = (\<lambda>x. ''<float>''), EmailEvent = Inr\<rparr>"

definition demo_group :: Group where
  "demo_group = \<lparr>name = ''vacuum'', enabled = True\<rparr>"

definition demo_config :: "string \<Rightarrow> string \<Rightarrow> config" where
  "demo_config cond vals =
     \<lparr>cfg_pvname = ''PV1'', cfg_emails = ''a@b'', cfg_condition = cond,
      cfg_alarm_values = vals, cfg_unit = ''V'', cfg_warning_message = ''w'',
      cfg_subject = ''s'', cfg_email_timeout = 10, cfg_group = demo_group, cfg_id = None,
      cfg_dummy = False\<rparr>"

definition demo_entry :: "string \<Rightarrow> string \<Rightarrow> Entry" where
  \<comment> \<open>an Entry of \<open>demo_config\<close> created at time 100 with a connected PV, before the
      attributes of its condition are set\<close>
  "demo_entry cond vals =
     \<lparr>pv = Some (PV ''PV1'' True), entry_id = None, condition = cond, alarm_values = vals,
      unit = ''V'', warning_message = ''w'', subject = ''s'', email_timeout = 10,
      emails = ''a@b'', group = demo_group, step_level = 0, step_values = [],
      last_event_time = 90, alarm_min = None, alarm_max = None, min_level = None,
      max_level = None\<rparr>"

definition step_entry :: Entry where
  "step_entry =
     (demo_entry ''increasingstep'' ''1.5:2.0:2.5:3.0'')
       \<lparr>step_values := [1.5, 2.0, 2.5, 3.0], min_level := Some 0, max_level := Some 4\<rparr>"

definition superior_entry :: Entry where
  "superior_entry = (demo_entry ''superiorthan'' ''5.0'')\<lparr>alarm_max := Some 5\<rparr>"

definition range_entry :: Entry where
  "range_entry =
     (demo_entry ''outofrange'' ''1.0:5.0'')\<lparr>alarm_min := Some 1, alarm_max := Some 5\<rparr>"

definition demo_event :: "string \<Rightarrow> string \<Rightarrow> event_args" where
  "demo_event cond msg =
     \<lparr>ev_pvname = ''PV1'', ev_specified_value_message = msg, ev_unit = ''V'',
      ev_warning = ''w'', ev_subject = ''s'', ev_emails = ''a@b'', ev_condition = cond,
      ev_value_measured = ''<float>''\<rparr>"

subsection \<open>The properties, in the words of the specification\<close>

definition level_in_range :: "Entry \<Rightarrow> bool" where
  \<comment> \<open>\<open>stepLevel\<close> lies in \<open>[0, len(stepThresholds)]\<close>\<close>
  "level_in_range e = (0 \<le> step_level e \<and> step_level e \<le> int (length (step_values e)))"

definition smallest_index_above :: "real list \<Rightarrow> real \<Rightarrow> nat \<Rightarrow> bool" where
  \<comment> \<open>\<open>i\<close> is the smallest index with \<open>sample < stepThresholds[i]\<close>, or the number of
      thresholds when there is none\<close>
  "smallest_index_above thresholds sample i =
     (if \<exists>k < length thresholds. sample < thresholds ! k
      then i < length thresholds \<and> sample < thresholds ! i
           \<and> (\<forall>k < i. \<not> sample < thresholds ! k)
      else i = length thresholds)"

definition unsupported_condition :: "'ev env \<Rightarrow> config \<Rightarrow> bool" where
  "unsupported_condition env cfg =
     (strip (lower (cfg_condition cfg))
        \<notin> {OutOfRange env, SuperiorThan env, InferiorThan env, IncreasingStep env})"


definition unsorted_thresholds :: "'ev env \<Rightarrow> config \<Rightarrow> bool" where
  \<comment> \<open>step thresholds that all parse and are not strictly increasing\<close>
  "unsorted_thresholds env cfg =
     (let parts = split (CHR '':'') (cfg_alarm_values cfg)
      in strip (lower (cfg_condition cfg)) = IncreasingStep env
         \<and> list_all (\<lambda>p. py_float env p \<noteq> None) parts
         \<and> \<not> sorted_wrt (<) (map (\<lambda>p. the (py_float env p)) parts))"

definition inverted_bounds :: "'ev env \<Rightarrow> config \<Rightarrow> bool" where
  \<comment> \<open>a range \<open>min:max\<close> that parses, with \<open>min >= max\<close>\<close>
  "inverted_bounds env cfg =
     (strip (lower (cfg_condition cfg)) = OutOfRange env
      \<and> (case split (CHR '':'') (cfg_alarm_values cfg) of
           [a, b] \<Rightarrow>
             (case (py_float env a, py_float env b) of
                (Some lo, Some hi) \<Rightarrow> lo \<ge> hi
              | other \<Rightarrow> False)
         | parts \<Rightarrow> False))"

subsection \<open>Facts about \<open>_find_next_level\<close>\<close>

lemma find_next_level_loop_takeWhile:
  "find_next_level_loop xs v l = l + int (length (takeWhile (\<lambda>s. \<not> v < s) xs))"
  by (induction xs arbitrary: l) auto

lemma find_next_level_bounds:
  "0 \<le> find_next_level e v \<and> find_next_level e v \<le> int (length (step_values e))"
  by (simp add: find_next_level_def find_next_level_loop_takeWhile length_takeWhile_le)

lemma find_next_level_step_level [simp]:
  "find_next_level (e\<lparr>step_level := l\<rparr>) v = find_next_level e v"
  by (simp add: find_next_level_def)

subsection \<open>What an evaluation can do to the Entry\<close>

lemma going_up_cases:
  assumes "\<And>r. Q (e, r)" and "\<And>r. Q (e\<lparr>step_level := find_next_level e v\<rparr>, r)"
  shows "Q (going_up env v n e)"
  unfolding going_up_def Let_def
  by (simp add: assms split: sum.split)

lemma going_down_cases:
  assumes "\<And>r. Q (e, r)" and "\<And>r. Q (e\<lparr>step_level := find_next_level e v\<rparr>, r)"
  shows "Q (going_down v n e)"
  unfolding going_down_def
  by (simp add: assms split: sum.split)

lemma increasing_step_cases:
  assumes same: "\<And>r. Q (e, r)"
    and moved: "\<And>r. Q (e\<lparr>step_level := find_next_level e v\<rparr>, r)"
  shows "Q (increasing_step env v e)"
proof (cases "getitem (step_values e) (step_level e)")
  case (Inl x)
  then show ?thesis by (simp add: increasing_step_def same)
next
  case (Inr n)
  let ?R = "\<lambda>p. Q (case p of
             (e1, Inl x) \<Rightarrow> (e1, Inl x)
           | (e1, Inr msg) \<Rightarrow>
               (case at_maximum v n e1 of
                  Inl x \<Rightarrow> (e1, Inl x)
                | Inr u \<Rightarrow>
                    (case at_lowest v n e1 of
                       Inl x \<Rightarrow> (e1, Inl x)
                     | Inr u' \<Rightarrow>
                         (case going_down v n e1 of
                            (e2, Inl x) \<Rightarrow> (e2, Inl x)
                          | (e2, Inr u'') \<Rightarrow> (e2, Inr msg)))))"
  have down: "Q (case going_down v n e1 of (e2, Inl x) \<Rightarrow> (e2, Inl x) | (e2, Inr u) \<Rightarrow> (e2, Inr msg))"
    if "e1 = e \<or> e1 = e\<lparr>step_level := find_next_level e v\<rparr>" for e1 and msg :: "string option"
    using that
    by (intro going_down_cases [where Q = "\<lambda>p. Q (case p of (e2, Inl x) \<Rightarrow> (e2, Inl x) | (e2, Inr u) \<Rightarrow> (e2, Inr msg))"])
       (auto simp: same moved split: sum.split)
  have rest: "?R (e1, r)" if "e1 = e \<or> e1 = e\<lparr>step_level := find_next_level e v\<rparr>" for e1 r
    using that down [OF that] by (auto simp: same moved split: sum.split)
  have "?R (going_up env v n e)"
    by (rule going_up_cases) (simp_all only: rest simp_thms)
  then show ?thesis using Inr by (simp add: increasing_step_def)
qed

lemma with_message_cases:
  assumes "\<And>r. Q (e, r)" shows "Q (with_message e m)"
  using assms by (simp add: with_message_def split: sum.split)

lemma specified_value_message_cases:
  assumes "\<And>r. Q (e, r)" and "\<And>r. Q (e\<lparr>step_level := find_next_level e v\<rparr>, r)"
  shows "Q (specified_value_message env e v)"
  unfolding specified_value_message_def
  by (simp add: assms with_message_cases increasing_step_cases split: sum.split bool.split)

lemma handle_condition_cases:
  assumes "\<And>r. Q (e, r)" and "\<And>r. Q (e\<lparr>step_level := find_next_level e v\<rparr>, r)"
  shows "Q (handle_condition env e v)"
  unfolding handle_condition_def
  by (rule specified_value_message_cases) (simp_all add: assms split: sum.split)

lemma check_alarms_locked_cases:
  assumes "\<And>r. Q ((e, q), r)"
    and "\<And>v q' r. Q ((fst (handle_condition env e v), q'), r)"
    and "\<And>v q' r. Q (((fst (handle_condition env e v))\<lparr>last_event_time := now\<rparr>, q'), r)"
  shows "Q (check_alarms_locked env e q now kwargs)"
proof (cases "kwargs ''value''")
  case None
  then show ?thesis by (simp add: check_alarms_locked_def assms(1))
next
  case (Some v)
  obtain e' r where hc: "handle_condition env e v = (e', r)"
    by (cases "handle_condition env e v")
  then have e': "fst (handle_condition env e v) = e'" by simp
  show ?thesis
    using assms(2) [of v] assms(3) [of v] unfolding e'
    by (simp add: check_alarms_locked_def Some hc split: sum.split option.split)
qed

lemma check_alarms_cases:
  assumes "\<And>r. Q ((e, q), r)"
    and "\<And>v q' r. Q ((fst (handle_condition env e v), q'), r)"
    and "\<And>v q' r. Q (((fst (handle_condition env e v))\<lparr>last_event_time := now\<rparr>, q'), r)"
  shows "Q (check_alarms env e q now kwargs)"
  unfolding check_alarms_def Let_def
  by (simp add: assms(1) check_alarms_locked_cases [where Q = Q, OF assms]
        split: sum.split option.split)

lemma step_entry_constructed:
  "Entry_init demo_env 100 True (demo_config '' IncreasingStep '' ''1.5:2.0:2.5:3.0'') = Inr step_entry"
  by code_simp

lemma superior_entry_constructed:
  "Entry_init demo_env 100 True (demo_config ''SuperiorThan'' ''5.0'') = Inr superior_entry"
  by code_simp

lemma range_entry_constructed:
  "Entry_init demo_env 100 True (demo_config ''OutOfRange'' ''1.0:5.0'') = Inr range_entry"
  by code_simp

lemma demo_names_distinct: "names_distinct demo_env"
  by code_simp

subsection \<open>The group gate\<close>

text \<open>
  Claim C9. When the group of an Entry is disabled, \<open>check_alarms\<close> returns nothing
  whatever the sample is, and leaves the Entry as it was (so \<open>last_event_time\<close> and
  \<open>step_level\<close> keep their values); the queue is not touched either.
\<close>

theorem disabled_group_no_effect:
  "\<not> enabled (group e) \<Longrightarrow> check_alarms env e q now kwargs = ((e, q), Inr ())"
  by (simp add: check_alarms_def)

theorem disabled_group_no_effect_witness:
  "\<not> enabled (group (range_entry\<lparr>group := \<lparr>name = ''vacuum'', enabled = False\<rparr>\<rparr>)) \<and>
   check_alarms demo_env (range_entry\<lparr>group := \<lparr>name = ''vacuum'', enabled = False\<rparr>\<rparr>)
      \<lparr>items = [], maxsize = 4\<rparr> 200 [''value'' \<mapsto> 7]
    = ((range_entry\<lparr>group := \<lparr>name = ''vacuum'', enabled = False\<rparr>\<rparr>, \<lparr>items = [], maxsize = 4\<rparr>), Inr ())"
proof -
  have h: "\<not> enabled (group (range_entry\<lparr>group := \<lparr>name = ''vacuum'', enabled = False\<rparr>\<rparr>))"
    by simp
  from h disabled_group_no_effect [OF h] show ?thesis by simp
qed

lemma check_alarms_guards_passed:
  assumes "enabled (group e)" and "pv e = Some (PV n True)"
    and "email_timeout e \<le> now - last_event_time e"
  shows "check_alarms env e q now kwargs = check_alarms_locked env e q now kwargs"
  using assms by (simp add: check_alarms_def Let_def)

lemma check_alarms_locked_event:
  assumes "kwargs ''value'' = Some v" and "handle_condition env e v = (e', Inr (Some ev))"
  shows "check_alarms_locked env e q now kwargs =
          (case put_nowait q ev of
             Inl x \<Rightarrow> ((e', q), Inr ())
           | Inr q' \<Rightarrow> ((e'\<lparr>last_event_time := now\<rparr>, q'), Inr ()))"
  using assms by (simp add: check_alarms_locked_def put_nowait_def)

lemma handle_condition_frame:
  "last_event_time (fst (handle_condition env e v)) = last_event_time e \<and>
   email_timeout (fst (handle_condition env e v)) = email_timeout e \<and>
   pv (fst (handle_condition env e v)) = pv e \<and>
   group (fst (handle_condition env e v)) = group e \<and>
   step_values (fst (handle_condition env e v)) = step_values e \<and>
   condition (fst (handle_condition env e v)) = condition e"
  by (rule handle_condition_cases) simp_all

lemma range_entry_violation:
  "handle_condition demo_env (range_entry\<lparr>last_event_time := t\<rparr>) 7
     = (range_entry\<lparr>last_event_time := t\<rparr>,
        Inr (Some (demo_event ''outofrange'' ''from <float>V to <float> V'')))"
  by (simp add: handle_condition_def specified_value_message_def out_of_range_violated_def
        out_of_range_message_def with_message_def make_event_def attr_def range_entry_def
        demo_entry_def demo_env_def demo_event_def)

subsection \<open>When \<open>last_event_time\<close> is updated\<close>

text \<open>
  Claim C1, as the code has it. When the guards pass and \<open>handle_condition\<close> returns an
  event, \<open>last_event_time\<close> becomes the timestamp of the evaluation exactly when the
  non-blocking \<open>put\<close> succeeds (line 301 follows the \<open>put\<close> of line 300 inside the
  \<open>try\<close>). When the queue is full, \<open>queue.Full\<close> is caught, the method returns
  normally and \<open>last_event_time\<close> keeps its old value.
\<close>

theorem last_event_time_follows_enqueue:
  assumes "enabled (group e)" and "pv e = Some (PV n True)"
    and "email_timeout e \<le> now - last_event_time e"
    and "kwargs ''value'' = Some v"
    and "handle_condition env e v = (e', Inr (Some ev))"
  shows "(\<forall>q'. put_nowait q ev = Inr q' \<longrightarrow>
            check_alarms env e q now kwargs = ((e'\<lparr>last_event_time := now\<rparr>, q'), Inr ()))
       \<and> (put_nowait q ev = Inl Full \<longrightarrow>
            check_alarms env e q now kwargs = ((e', q), Inr ())
            \<and> last_event_time e' = last_event_time e)"
proof -
  have "last_event_time e' = last_event_time e"
    using handle_condition_frame [of env e v] assms(5) by simp
  then show ?thesis
    by (simp add: check_alarms_guards_passed [OF assms(1-3)]
          check_alarms_locked_event [of kwargs v env e e' ev, OF assms(4,5)])
qed

theorem last_event_time_follows_enqueue_witness:
  "check_alarms demo_env range_entry \<lparr>items = [], maxsize = 1\<rparr> 200 [''value'' \<mapsto> 7]
     = ((range_entry\<lparr>last_event_time := 200\<rparr>,
         \<lparr>items = [demo_event ''outofrange'' ''from <float>V to <float> V''], maxsize = 1\<rparr>),
        Inr ())
   \<and> check_alarms demo_env range_entry
         \<lparr>items = [demo_event ''outofrange'' ''old''], maxsize = 1\<rparr> 200 [''value'' \<mapsto> 7]
     = ((range_entry, \<lparr>items = [demo_event ''outofrange'' ''old''], maxsize = 1\<rparr>), Inr ())"
proof -
  let ?ev = "demo_event ''outofrange'' ''from <float>V to <float> V''"
  have g: "enabled (group range_entry)" "pv range_entry = Some (PV ''PV1'' True)"
    "email_timeout range_entry \<le> 200 - last_event_time range_entry"
    "[''value'' \<mapsto> 7::real] ''value'' = Some 7"
    by (simp_all add: range_entry_def demo_entry_def demo_group_def)
  have hc: "handle_condition demo_env range_entry 7 = (range_entry, Inr (Some ?ev))"
    using range_entry_violation [of 90] by (simp add: range_entry_def demo_entry_def)
  have ok: "put_nowait \<lparr>items = [], maxsize = 1\<rparr> ?ev = Inr \<lparr>items = [?ev], maxsize = 1\<rparr>"
    by (simp add: put_nowait_def)
  have full: "put_nowait \<lparr>items = [demo_event ''outofrange'' ''old''], maxsize = 1\<rparr> ?ev = Inl Full"
    by (simp add: put_nowait_def)
  from last_event_time_follows_enqueue
      [where kwargs = "[''value'' \<mapsto> 7]" and v = 7 and q = "\<lparr>items = [], maxsize = 1\<rparr>",
        OF g hc] ok
    last_event_time_follows_enqueue
      [where kwargs = "[''value'' \<mapsto> 7]" and v = 7
         and q = "\<lparr>items = [demo_event ''outofrange'' ''old''], maxsize = 1\<rparr>", OF g hc] full
  show ?thesis by simp
qed

text \<open>
  The claim as written (the update happens whether or not the enqueue succeeds) fails
  on a full queue: the out-of-range sample 7 gives an event, the queue of capacity 1
  is full, and after the call at time 200 \<open>last_event_time\<close> is still 90.
\<close>

theorem last_event_time_queue_full_counterexample:
  "handle_condition demo_env range_entry 7
     = (range_entry, Inr (Some (demo_event ''outofrange'' ''from <float>V to <float> V''))) \<and>
   check_alarms demo_env range_entry \<lparr>items = [demo_event ''outofrange'' ''old''], maxsize = 1\<rparr> 200 [''value'' \<mapsto> 7]
     = ((range_entry, \<lparr>items = [demo_event ''outofrange'' ''old''], maxsize = 1\<rparr>), Inr ()) \<and>
   last_event_time (fst (fst (check_alarms demo_env range_entry
       \<lparr>items = [demo_event ''outofrange'' ''old''], maxsize = 1\<rparr> 200 [''value'' \<mapsto> 7])))
     \<noteq> 200"
  by code_simp

subsection \<open>The debounce guard\<close>



subsection \<open>The IncreasingStep branch at the ceiling\<close>

lemma increasing_step_dispatch:
  assumes "names_distinct env" and "condition e = IncreasingStep env"
  shows "specified_value_message env e v = increasing_step env v e"
  using assms by (auto simp: specified_value_message_def names_distinct_def)

lemma getitem_length: "getitem xs (int (length xs)) = Inl IndexError"
  by (simp add: getitem_def)

text \<open>
  Claim C2 says that at \<open>step_level = max_level\<close> no next threshold is looked up and the
  evaluation yields no event and does not fail. The code looks
  \<open>step_values[step_level]\<close> up first, at line 219, for every level: at the ceiling the
  index is the length of the list, and \<open>handle_condition\<close> raises IndexError for every
  sample. The Entry is left unchanged.
\<close>

theorem ceiling_lookup_raises:
  assumes "names_distinct env" and "condition e = IncreasingStep env"
    and "step_level e = int (length (step_values e))"
  shows "handle_condition env e sample = (e, Inl IndexError)"
  using assms(3)
  by (simp add: handle_condition_def increasing_step_dispatch [OF assms(1,2)]
        increasing_step_def getitem_length)

theorem ceiling_lookup_raises_witness:
  "names_distinct demo_env \<and> condition (step_entry\<lparr>step_level := 4\<rparr>) = IncreasingStep demo_env
   \<and> step_level (step_entry\<lparr>step_level := 4\<rparr>)
       = int (length (step_values (step_entry\<lparr>step_level := 4\<rparr>)))
   \<and> handle_condition demo_env (step_entry\<lparr>step_level := 4\<rparr>) 10
       = (step_entry\<lparr>step_level := 4\<rparr>, Inl IndexError)"
proof -
  have h1: "names_distinct demo_env"
    by (simp add: names_distinct_def demo_env_def)
  have h2: "condition (step_entry\<lparr>step_level := 4\<rparr>) = IncreasingStep demo_env"
    by (simp add: step_entry_def demo_entry_def demo_env_def)
  have h3: "step_level (step_entry\<lparr>step_level := 4\<rparr>)
              = int (length (step_values (step_entry\<lparr>step_level := 4\<rparr>)))"
    by (simp add: step_entry_def)
  from h1 h2 h3 ceiling_lookup_raises [OF h1 h2 h3, of 10] show ?thesis by simp
qed

subsection \<open>Exceptions that leave \<open>check_alarms\<close>\<close>

text \<open>
  Claim C5 says that \<open>check_alarms\<close> never raises. On the Entry that the constructor
  builds for the thresholds 1.5:2.0:2.5:3.0, the sample 3.5 at time 100 moves
  \<open>step_level\<close> to 4 and enqueues an event; the next sample after the timeout, 10.0 at
  time 110, raises IndexError out of \<open>check_alarms\<close>, which catches \<open>queue.Full\<close> only.
\<close>

theorem check_alarms_raises_at_ceiling:
  "Entry_init demo_env 100 True (demo_config ''IncreasingStep'' ''1.5:2.0:2.5:3.0'')
     = Inr step_entry
   \<and> check_alarms demo_env step_entry \<lparr>items = [], maxsize = 4\<rparr> 100 [''value'' \<mapsto> 3.5]
     = ((step_entry\<lparr>step_level := 4, last_event_time := 100\<rparr>,
         \<lparr>items = [demo_event ''increasingstep'' ''lower than <float>V''], maxsize = 4\<rparr>),
        Inr ())
   \<and> check_alarms demo_env (step_entry\<lparr>step_level := 4, last_event_time := 100\<rparr>)
        \<lparr>items = [demo_event ''increasingstep'' ''lower than <float>V''], maxsize = 4\<rparr>
        110 [''value'' \<mapsto> 10]
     = ((step_entry\<lparr>step_level := 4, last_event_time := 100\<rparr>,
         \<lparr>items = [demo_event ''increasingstep'' ''lower than <float>V''], maxsize = 4\<rparr>),
        Inl IndexError)"
  by code_simp

text \<open>
  The other exceptions that cross \<open>check_alarms\<close>: the AttributeError of a SuperiorThan
  Entry on a sample above its bound, and the AttributeError of the second guard on an
  Entry that was created with \<open>dummy=True\<close>, since a \<open>DummyPV\<close> has no attribute
  \<open>connected\<close>.
\<close>

lemma superior_than_check_alarms_raises:
  "check_alarms demo_env superior_entry \<lparr>items = [], maxsize = 4\<rparr> 100 [''value'' \<mapsto> 6]
     = ((superior_entry, \<lparr>items = [], maxsize = 4\<rparr>), Inl AttributeError)"
  by code_simp

lemma dummy_check_alarms_raises:
  assumes "enabled (group e)" and "pv e = Some (DummyPV n)"
  shows "check_alarms env e q now kwargs = ((e, q), Inl AttributeError)"
  using assms by (simp add: check_alarms_def)

subsection \<open>SuperiorThan\<close>

lemma init_superior_than_Inr:
  "init_superior_than env e0 = Inr e \<Longrightarrow> \<exists>x. e = e0\<lparr>alarm_max := Some x\<rparr>"
  by (auto simp: init_superior_than_def split: option.splits)

lemma init_inferior_than_Inr:
  "init_inferior_than env e0 = Inr e \<Longrightarrow> \<exists>x. e = e0\<lparr>alarm_min := Some x\<rparr>"
  by (auto simp: init_inferior_than_def split: option.splits)

lemma init_out_of_range_Inr:
  "init_out_of_range env e0 = Inr e \<Longrightarrow>
     \<exists>lo hi. lo < hi \<and> e = e0\<lparr>alarm_min := Some lo, alarm_max := Some hi\<rparr>"
  by (fastforce simp: init_out_of_range_def Let_def not_le
        split: option.splits list.splits if_splits)

lemma init_increasing_step_Inr:
  "init_increasing_step env e0 = Inr e \<Longrightarrow>
     \<exists>vals. e = e0\<lparr>step_level := 0, step_values := vals, min_level := Some 0,
                    max_level := Some (int (length vals))\<rparr>"
  by (auto simp: init_increasing_step_def Let_def split: sum.splits if_splits)

lemma Entry_init_Inr:
  assumes "Entry_init env now conn cfg = Inr e"
  obtains e0 e1 p where "e0 = Entry_attributes now cfg" and "e = e1\<lparr>pv := Some p\<rparr>"
    and "(condition e0 = OutOfRange env \<and> init_out_of_range env e0 = Inr e1)
       \<or> (condition e0 \<noteq> OutOfRange env \<and> condition e0 = SuperiorThan env
            \<and> init_superior_than env e0 = Inr e1)
       \<or> (condition e0 \<noteq> OutOfRange env \<and> condition e0 \<noteq> SuperiorThan env
            \<and> condition e0 = InferiorThan env \<and> init_inferior_than env e0 = Inr e1)
       \<or> (condition e0 \<noteq> OutOfRange env \<and> condition e0 \<noteq> SuperiorThan env
            \<and> condition e0 \<noteq> InferiorThan env \<and> condition e0 = IncreasingStep env
            \<and> init_increasing_step env e0 = Inr e1)"
  using assms unfolding Entry_init_def Let_def
  by (auto split: sum.splits if_splits)

lemma Entry_init_superior_than:
  assumes "names_distinct env" and "Entry_init env now conn cfg = Inr e"
    and "condition e = SuperiorThan env"
  shows "\<exists>hi. alarm_max e = Some hi \<and> alarm_min e = None"
proof -
  from assms(2) obtain e0 e1 p where e0: "e0 = Entry_attributes now cfg"
    and e: "e = e1\<lparr>pv := Some p\<rparr>"
    and d: "(condition e0 = OutOfRange env \<and> init_out_of_range env e0 = Inr e1)
       \<or> (condition e0 \<noteq> OutOfRange env \<and> condition e0 = SuperiorThan env
            \<and> init_superior_than env e0 = Inr e1)
       \<or> (condition e0 \<noteq> OutOfRange env \<and> condition e0 \<noteq> SuperiorThan env
            \<and> condition e0 = InferiorThan env \<and> init_inferior_than env e0 = Inr e1)
       \<or> (condition e0 \<noteq> OutOfRange env \<and> condition e0 \<noteq> SuperiorThan env
            \<and> condition e0 \<noteq> InferiorThan env \<and> condition e0 = IncreasingStep env
            \<and> init_increasing_step env e0 = Inr e1)"
    by (rule Entry_init_Inr)
  have c: "condition e1 = condition e0"
    using d init_out_of_range_Inr [of env e0 e1] init_superior_than_Inr [of env e0 e1]
      init_inferior_than_Inr [of env e0 e1] init_increasing_step_Inr [of env e0 e1]
    by auto
  have "condition e0 = SuperiorThan env" using assms(3) e c by simp
  with assms(1) d have "init_superior_than env e0 = Inr e1"
    by (auto simp: names_distinct_def)
  then obtain x where "e1 = e0\<lparr>alarm_max := Some x\<rparr>"
    using init_superior_than_Inr by blast
  then show ?thesis using e e0 by (simp add: Entry_attributes_def)
qed

text \<open>
  Claim C3 says that a SuperiorThan Entry turns a sample above \<open>alarm_max\<close> into the
  message "lower than alarmMin" and an event, and that the evaluation completes
  normally. \<open>_init_superior_than\<close> assigns \<open>alarm_max\<close> only, so on every SuperiorThan
  Entry that the constructor returns the read of \<open>self.alarm_min\<close> at line 213 raises
  AttributeError: a sample above \<open>alarm_max\<close> gives no message and no event. A sample
  that is not above \<open>alarm_max\<close> is no violation and returns no event.
\<close>

theorem superior_than_violation_raises:
  assumes "names_distinct env" and "Entry_init env now conn cfg = Inr e"
    and "condition e = SuperiorThan env"
  shows "\<exists>hi. alarm_max e = Some hi \<and>
           (\<forall>sample. handle_condition env e sample
              = (if sample > hi then (e, Inl AttributeError) else (e, Inr None)))"
proof -
  from Entry_init_superior_than [OF assms] obtain hi
    where hi: "alarm_max e = Some hi" and lo: "alarm_min e = None" by blast
  have "handle_condition env e sample
          = (if sample > hi then (e, Inl AttributeError) else (e, Inr None))" for sample
    using assms(1,3) hi lo
    by (auto simp: handle_condition_def specified_value_message_def names_distinct_def
          superior_than_violated_def superior_than_message_def with_message_def attr_def
          make_event_def)
  with hi show ?thesis by blast
qed

theorem superior_than_violation_raises_witness:
  "names_distinct demo_env
   \<and> Entry_init demo_env 100 True (demo_config ''SuperiorThan'' ''5.0'') = Inr superior_entry
   \<and> condition superior_entry = SuperiorThan demo_env
   \<and> alarm_max superior_entry = Some 5
   \<and> handle_condition demo_env superior_entry 6 = (superior_entry, Inl AttributeError)
   \<and> handle_condition demo_env superior_entry 4 = (superior_entry, Inr None)"
proof -
  have h1: "names_distinct demo_env"
    by (simp add: names_distinct_def demo_env_def)
  have h2: "Entry_init demo_env 100 True (demo_config ''SuperiorThan'' ''5.0'') = Inr superior_entry"
    by (rule superior_entry_constructed)
  have h3: "condition superior_entry = SuperiorThan demo_env"
    by (simp add: superior_entry_def demo_entry_def demo_env_def)
  have m: "alarm_max superior_entry = Some 5"
    by (simp add: superior_entry_def)
  from superior_than_violation_raises [OF h1 h2 h3] m
  have "\<forall>sample. handle_condition demo_env superior_entry sample
          = (if sample > 5 then (superior_entry, Inl AttributeError) else (superior_entry, Inr None))"
    by auto
  then have "handle_condition demo_env superior_entry 6 = (superior_entry, Inl AttributeError)"
    and "handle_condition demo_env superior_entry 4 = (superior_entry, Inr None)"
    by simp_all
  with h1 h2 h3 m show ?thesis by simp
qed

subsection \<open>Step ascent\<close>

lemma smallest_index_above_takeWhile:
  "smallest_index_above xs v (length (takeWhile (\<lambda>s. \<not> v < s) xs))"
proof -
  let ?P = "\<lambda>s. \<not> v < s"
  let ?k = "length (takeWhile ?P xs)"
  have below: "\<not> v < xs ! i" if "i < ?k" for i
  proof -
    have "takeWhile ?P xs ! i \<in> set (takeWhile ?P xs)" using that by simp
    then have "?P (takeWhile ?P xs ! i)" by (rule set_takeWhileD [THEN conjunct2])
    then show ?thesis using that by (simp add: takeWhile_nth)
  qed
  have at: "v < xs ! ?k" if "?k < length xs"
    using nth_length_takeWhile [OF that] by simp
  have le: "?k \<le> length xs" by (rule length_takeWhile_le)
  show ?thesis
  proof (cases "\<exists>j < length xs. v < xs ! j")
    case True
    then obtain j where j: "j < length xs" "v < xs ! j" by blast
    have "?k < length xs"
    proof (rule ccontr)
      assume "\<not> ?k < length xs"
      with le have "j < ?k" using j(1) by simp
      from below [OF this] j(2) show False by simp
    qed
    with True at below show ?thesis by (simp add: smallest_index_above_def)
  next
    case False
    have "?k = length xs"
    proof (rule ccontr)
      assume "?k \<noteq> length xs"
      with le have "?k < length xs" by simp
      with at False show False by blast
    qed
    with False show ?thesis by (simp add: smallest_index_above_def)
  qed
qed

lemma find_next_level_smallest:
  "\<exists>i. smallest_index_above (step_values e) v i \<and> find_next_level e v = int i"
  using smallest_index_above_takeWhile [of "step_values e" v]
  by (auto simp: find_next_level_def find_next_level_loop_takeWhile)

lemma getitem_nth:
  "0 \<le> i \<Longrightarrow> i < int (length xs) \<Longrightarrow> getitem xs i = Inr (xs ! nat i)"
  by (simp add: getitem_def)

lemma increasing_step_going_up:
  assumes "max_level e = Some (int (length (step_values e)))"
    and "0 \<le> step_level e" and "step_level e < int (length (step_values e))"
    and "step_values e ! nat (step_level e) \<le> sample"
  shows "increasing_step env sample e
           = (e\<lparr>step_level := find_next_level e sample\<rparr>,
              Inr (Some (''lower than '' @ str_float env (step_values e ! 0) @ unit e)))"
proof -
  let ?n = "step_values e ! nat (step_level e)"
  let ?e = "e\<lparr>step_level := find_next_level e sample\<rparr>"
  let ?msg = "''lower than '' @ str_float env (step_values e ! 0) @ unit e"
  have nxt: "getitem (step_values e) (step_level e) = Inr ?n"
    using assms(2,3) by (rule getitem_nth)
  have first: "getitem (step_values e) 0 = Inr (step_values e ! 0)"
    using assms(2,3) by (auto simp: getitem_def)
  have up: "going_up env sample ?n e = (?e, Inr (Some ?msg))"
    using assms first by (simp add: going_up_def attr_def Let_def)
  have mx: "at_maximum sample ?n ?e = Inr ()"
    using assms by (simp add: at_maximum_def attr_def)
  have lw: "at_lowest sample ?n ?e = Inr ()"
    using assms(4) by (simp add: at_lowest_def)
  have dn: "going_down sample ?n ?e = (?e, Inr ())"
    using assms(4) by (simp add: going_down_def)
  show ?thesis
    by (simp add: increasing_step_def nxt up mx lw dn)
qed

text \<open>
  Claim C6. For an IncreasingStep Entry below the ceiling (\<open>step_level < max_level\<close>, the
  number of thresholds) and a sample that is at least the threshold of the current
  level, the evaluation sets \<open>step_level\<close> to the smallest index \<open>i\<close> with
  \<open>sample < step_values[i]\<close>, or to the number of thresholds when there is none, and
  produces one message, "lower than" \<open>step_values[0]\<close> and the unit, however many
  levels the sample skipped. \<open>handle_condition\<close> passes exactly this message to one
  call of the EmailEvent constructor.
\<close>

theorem step_ascent:
  assumes "names_distinct env" and "condition e = IncreasingStep env"
    and "max_level e = Some (int (length (step_values e)))"
    and "0 \<le> step_level e" and "step_level e < int (length (step_values e))"
    and "step_values e ! nat (step_level e) \<le> sample"
    and "pv e = Some p"
  shows "\<exists>i. smallest_index_above (step_values e) sample i
           \<and> specified_value_message env e sample
               = (e\<lparr>step_level := int i\<rparr>,
                  Inr (Some (''lower than '' @ str_float env (step_values e ! 0) @ unit e)))
           \<and> handle_condition env e sample
               = (e\<lparr>step_level := int i\<rparr>,
                  Inr (case EmailEvent env
                              \<lparr>ev_pvname = pvname p,
                               ev_specified_value_message
                                 = ''lower than '' @ str_float env (step_values e ! 0) @ unit e,
                               ev_unit = unit e, ev_warning = warning_message e,
                               ev_subject = subject e, ev_emails = emails e,
                               ev_condition = condition e,
                               ev_value_measured = fmt4 env sample\<rparr> of
                         Inl x \<Rightarrow> None
                       | Inr ev \<Rightarrow> Some ev))"
proof -
  obtain i where i: "smallest_index_above (step_values e) sample i"
    and lvl: "find_next_level e sample = int i"
    using find_next_level_smallest by blast
  have msg: "specified_value_message env e sample
               = (e\<lparr>step_level := int i\<rparr>,
                  Inr (Some (''lower than '' @ str_float env (step_values e ! 0) @ unit e)))"
    using increasing_step_going_up [OF assms(3-6), of env] lvl
    by (simp add: increasing_step_dispatch [OF assms(1,2)])
  show ?thesis
    using i msg assms(7) by (auto simp: handle_condition_def make_event_def)
qed

lemma step_entry_descent:
  "handle_condition demo_env (step_entry\<lparr>step_level := 3\<rparr>) 1
     = (step_entry\<lparr>step_level := 0\<rparr>, Inr None)"
  by code_simp

theorem step_ascent_witness:
  "names_distinct demo_env \<and> condition step_entry = IncreasingStep demo_env
   \<and> max_level step_entry = Some (int (length (step_values step_entry)))
   \<and> 0 \<le> step_level step_entry \<and> step_level step_entry < int (length (step_values step_entry))
   \<and> step_values step_entry ! nat (step_level step_entry) \<le> 2.7
   \<and> pv step_entry = Some (PV ''PV1'' True)
   \<and> smallest_index_above [1.5, 2.0, 2.5, 3.0] 2.7 3
   \<and> handle_condition demo_env step_entry 2.7
       = (step_entry\<lparr>step_level := 3\<rparr>,
          Inr (Some (demo_event ''increasingstep'' ''lower than <float>V'')))
   \<and> handle_condition demo_env (step_entry\<lparr>step_level := 3\<rparr>) 1.0
       = (step_entry\<lparr>step_level := 0\<rparr>, Inr None)"
proof -
  have h1: "names_distinct demo_env"
    by (simp add: names_distinct_def demo_env_def)
  have h2: "condition step_entry = IncreasingStep demo_env"
    by (simp add: step_entry_def demo_entry_def demo_env_def)
  have h3: "max_level step_entry = Some (int (length (step_values step_entry)))"
    by (simp add: step_entry_def)
  have h4: "0 \<le> step_level step_entry"
    by (simp add: step_entry_def demo_entry_def)
  have h5: "step_level step_entry < int (length (step_values step_entry))"
    by (simp add: step_entry_def demo_entry_def)
  have h6: "step_values step_entry ! nat (step_level step_entry) \<le> 2.7"
    by (simp add: step_entry_def demo_entry_def)
  have h7: "pv step_entry = Some (PV ''PV1'' True)"
    by (simp add: step_entry_def demo_entry_def)
  have run: "handle_condition demo_env step_entry 2.7
       = (step_entry\<lparr>step_level := 3\<rparr>,
          Inr (Some (demo_event ''increasingstep'' ''lower than <float>V'')))"
    by code_simp
  from step_ascent [OF h1 h2 h3 h4 h5 h6 h7] obtain i
    where i: "smallest_index_above (step_values step_entry) 2.7 i"
      and r: "specified_value_message demo_env step_entry 2.7
               = (step_entry\<lparr>step_level := int i\<rparr>,
                  Inr (Some (''lower than '' @ str_float demo_env (step_values step_entry ! 0)
                        @ unit step_entry)))"
    by blast
  from r run have "step_level (step_entry\<lparr>step_level := int i\<rparr>)
      = step_level (step_entry\<lparr>step_level := 3\<rparr>)"
    by (simp add: handle_condition_def split: prod.splits sum.splits)
  then have "i = 3" by simp
  with i have "smallest_index_above [1.5, 2.0, 2.5, 3.0] 2.7 3"
    by (simp add: step_entry_def)
  with h1 h2 h3 h4 h5 h6 h7 run step_entry_descent show ?thesis by simp
qed

subsection \<open>The range of \<open>step_level\<close>\<close>

lemma Entry_init_step_level:
  assumes "Entry_init env now conn cfg = Inr e"
  shows "step_level e = 0"
proof -
  from assms obtain e0 e1 p where e0: "e0 = Entry_attributes now cfg"
    and e: "e = e1\<lparr>pv := Some p\<rparr>"
    and d: "(condition e0 = OutOfRange env \<and> init_out_of_range env e0 = Inr e1)
       \<or> (condition e0 \<noteq> OutOfRange env \<and> condition e0 = SuperiorThan env
            \<and> init_superior_than env e0 = Inr e1)
       \<or> (condition e0 \<noteq> OutOfRange env \<and> condition e0 \<noteq> SuperiorThan env
            \<and> condition e0 = InferiorThan env \<and> init_inferior_than env e0 = Inr e1)
       \<or> (condition e0 \<noteq> OutOfRange env \<and> condition e0 \<noteq> SuperiorThan env
            \<and> condition e0 \<noteq> InferiorThan env \<and> condition e0 = IncreasingStep env
            \<and> init_increasing_step env e0 = Inr e1)"
    by (rule Entry_init_Inr)
  have z: "step_level e0 = 0" by (simp add: e0 Entry_attributes_def)
  have "step_level e1 = 0"
    using d z init_out_of_range_Inr [of env e0 e1] init_superior_than_Inr [of env e0 e1]
      init_inferior_than_Inr [of env e0 e1] init_increasing_step_Inr [of env e0 e1]
    by auto
  then show ?thesis by (simp add: e)
qed

lemma handle_condition_level_in_range:
  "level_in_range e \<Longrightarrow> level_in_range (fst (handle_condition env e sample))"
  using find_next_level_bounds [of e sample]
  by (intro handle_condition_cases [where Q = "\<lambda>p. level_in_range (fst p)"])
     (simp_all add: level_in_range_def)

text \<open>
  Claim C8. \<open>step_level\<close> lies between 0 and the number of thresholds at all times: the
  constructor returns an Entry with \<open>step_level = 0\<close>, \<open>_find_next_level\<close> returns a
  level in that range, and \<open>handle_condition\<close> and \<open>check_alarms\<close> leave the Entry in
  range whenever they find it in range, whether they return or raise.
\<close>

theorem step_level_in_range:
  "(Entry_init env now conn cfg = Inr e0 \<longrightarrow> step_level e0 = 0 \<and> level_in_range e0)
   \<and> 0 \<le> find_next_level e sample \<and> find_next_level e sample \<le> int (length (step_values e))
   \<and> (level_in_range e \<longrightarrow> level_in_range (fst (handle_condition env e sample)))
   \<and> (level_in_range e \<longrightarrow> level_in_range (fst (fst (check_alarms env e q t kwargs))))"
proof (intro conjI impI)
  assume "Entry_init env now conn cfg = Inr e0"
  then show "step_level e0 = 0" by (rule Entry_init_step_level)
  then show "level_in_range e0" by (simp add: level_in_range_def)
next
  show "0 \<le> find_next_level e sample"
    and "find_next_level e sample \<le> int (length (step_values e))"
    using find_next_level_bounds [of e sample] by simp_all
next
  assume "level_in_range e"
  then show "level_in_range (fst (handle_condition env e sample))"
    by (rule handle_condition_level_in_range)
next
  assume r: "level_in_range e"
  have hc: "level_in_range (fst (handle_condition env e v))" for v
    using r by (rule handle_condition_level_in_range)
  have hc': "level_in_range ((fst (handle_condition env e v))\<lparr>last_event_time := t\<rparr>)" for v
    using hc [of v] by (simp add: level_in_range_def)
  show "level_in_range (fst (fst (check_alarms env e q t kwargs)))"
    by (intro check_alarms_cases [where Q = "\<lambda>p. level_in_range (fst (fst p))"])
       (simp_all add: r hc hc')
qed

theorem step_level_in_range_witness:
  "Entry_init demo_env 100 True (demo_config ''IncreasingStep'' ''1.5:2.0:2.5:3.0'')
     = Inr step_entry
   \<and> step_level step_entry = 0 \<and> level_in_range step_entry
   \<and> level_in_range (fst (handle_condition demo_env step_entry 3.5))
   \<and> level_in_range (fst (fst (check_alarms demo_env step_entry \<lparr>items = [], maxsize = 4\<rparr>
        100 [''value'' \<mapsto> 3.5])))"
proof -
  have c: "Entry_init demo_env 100 True (demo_config ''IncreasingStep'' ''1.5:2.0:2.5:3.0'')
     = Inr step_entry"
    by code_simp
  from step_level_in_range [of demo_env 100 True
      "demo_config ''IncreasingStep'' ''1.5:2.0:2.5:3.0''" step_entry step_entry "3.5"
      "\<lparr>items = [], maxsize = 4\<rparr>" 100 "[''value'' \<mapsto> 3.5]"] c
  show ?thesis by simp
qed

subsection \<open>Configurations that the constructor rejects\<close>

lemma split_not_Nil: "split sep s \<noteq> []"
  by (induction s) (auto split: list.splits)

lemma floats_eq:
  "floats f ps = (if list_ex (\<lambda>p. f p = None) ps then Inl ValueError
                  else Inr (map (\<lambda>p. the (f p)) ps))"
  by (induction ps) (auto split: option.splits sum.splits)

lemma steps_sorted_iff: "steps_sorted s vs \<longleftrightarrow> sorted_wrt (<) (s # vs)"
proof (induction vs arbitrary: s)
  case Nil
  show ?case by simp
next
  case (Cons v vs)
  show ?case using Cons.IH [of v] by (auto simp: not_le dest: order.strict_trans)
qed

lemma Entry_str_attributes: "Entry_str (Entry_attributes now cfg) = Inl AttributeError"
  by (simp add: Entry_str_def pvname_or_None_def Entry_attributes_def)

lemma unsupported_raises:
  assumes "unsupported_condition env cfg"
  shows "Entry_init env now conn cfg = Inl AttributeError"
proof -
  have c: "condition (Entry_attributes now cfg) = strip (lower (cfg_condition cfg))"
    by (simp add: Entry_attributes_def)
  show ?thesis
    using assms unfolding Entry_init_def Let_def unsupported_condition_def
    by (simp add: c Entry_str_attributes raise_EntryException_def)
qed

lemma Entry_init_out_of_range:
  assumes "strip (lower (cfg_condition cfg)) = OutOfRange env"
  shows "Entry_init env now conn cfg
           = (case init_out_of_range env (Entry_attributes now cfg) of
                Inl x \<Rightarrow> Inl x
              | Inr e' \<Rightarrow>
                  Inr (e'\<lparr>pv := Some (if \<not> cfg_dummy cfg then PV (strip (cfg_pvname cfg)) conn
                                       else DummyPV (strip (cfg_pvname cfg)))\<rparr>))"
proof -
  have c: "condition (Entry_attributes now cfg) = OutOfRange env"
    using assms by (simp add: Entry_attributes_def)
  show ?thesis unfolding Entry_init_def Let_def by (simp add: c)
qed



lemma Entry_init_increasing:
  assumes "names_distinct env" and "strip (lower (cfg_condition cfg)) = IncreasingStep env"
  shows "Entry_init env now conn cfg
           = (case init_increasing_step env (Entry_attributes now cfg) of
                Inl x \<Rightarrow> Inl x
              | Inr e' \<Rightarrow>
                  Inr (e'\<lparr>pv := Some (if \<not> cfg_dummy cfg then PV (strip (cfg_pvname cfg)) conn
                                       else DummyPV (strip (cfg_pvname cfg)))\<rparr>))"
proof -
  have c: "condition (Entry_attributes now cfg) = IncreasingStep env"
    using assms by (simp add: Entry_attributes_def)
  have d: "IncreasingStep env \<noteq> OutOfRange env" "IncreasingStep env \<noteq> SuperiorThan env"
    "IncreasingStep env \<noteq> InferiorThan env"
    using assms(1) by (auto simp: names_distinct_def)
  show ?thesis unfolding Entry_init_def Let_def by (simp add: c d)
qed


lemma init_out_of_range_inverted:
  assumes "split (CHR '':'') (alarm_values e) = [a, b]"
    and "py_float env a = Some lo" and "py_float env b = Some hi" and "lo \<ge> hi"
    and "pv e = None"
  shows "init_out_of_range env e = Inl AttributeError"
  using assms
  by (simp add: init_out_of_range_def Let_def raise_EntryException_def pvname_or_None_def)


lemma init_increasing_step_unsorted:
  assumes "list_all (\<lambda>p. py_float env p \<noteq> None) (split (CHR '':'') (alarm_values e))"
    and "\<not> sorted_wrt (<) (map (\<lambda>p. the (py_float env p)) (split (CHR '':'') (alarm_values e)))"
    and "pv e = None"
  shows "init_increasing_step env e = Inl AttributeError"
proof -
  let ?parts = "split (CHR '':'') (alarm_values e)"
  let ?vals = "map (\<lambda>p. the (py_float env p)) ?parts"
  have none: "\<not> list_ex (\<lambda>p. py_float env p = None) ?parts"
    using assms(1) by (simp add: list_all_iff list_ex_iff)
  have fl: "floats (py_float env) ?parts = Inr ?vals"
    using none by (simp add: floats_eq)
  have ne: "?vals \<noteq> []" by (simp add: split_not_Nil)
  then obtain s vs where sv: "?vals = s # vs" by (cases ?vals) auto
  have g: "getitem ?vals 0 = Inr s" by (simp add: sv getitem_def)
  have ns: "\<not> steps_sorted s (tl ?vals)"
    using assms(2) by (simp add: sv steps_sorted_iff)
  show ?thesis
    unfolding init_increasing_step_def Let_def
    using g ns assms(3) by (simp add: fl raise_EntryException_def attr_def)
qed


lemma unsorted_raises:
  assumes "names_distinct env" and "unsorted_thresholds env cfg"
  shows "Entry_init env now conn cfg = Inl AttributeError"
proof -
  have av: "alarm_values (Entry_attributes now cfg) = cfg_alarm_values cfg"
    and pv: "pv (Entry_attributes now cfg) = None"
    by (simp_all add: Entry_attributes_def)
  from assms(2) have c: "strip (lower (cfg_condition cfg)) = IncreasingStep env"
    and ok: "list_all (\<lambda>p. py_float env p \<noteq> None) (split (CHR '':'') (cfg_alarm_values cfg))"
    and ns: "\<not> sorted_wrt (<) (map (\<lambda>p. the (py_float env p))
                (split (CHR '':'') (cfg_alarm_values cfg)))"
    unfolding unsorted_thresholds_def Let_def by simp_all
  have "init_increasing_step env (Entry_attributes now cfg) = Inl AttributeError"
    using ok ns pv by (intro init_increasing_step_unsorted) (simp_all add: av)
  then show ?thesis by (simp add: Entry_init_increasing [OF assms(1) c])
qed

lemma inverted_raises:
  assumes "inverted_bounds env cfg"
  shows "Entry_init env now conn cfg = Inl AttributeError"
proof -
  have av: "alarm_values (Entry_attributes now cfg) = cfg_alarm_values cfg"
    and pv: "pv (Entry_attributes now cfg) = None"
    by (simp_all add: Entry_attributes_def)
  from assms have c: "strip (lower (cfg_condition cfg)) = OutOfRange env"
    by (simp add: inverted_bounds_def)
  from assms obtain a b lo hi where "split (CHR '':'') (cfg_alarm_values cfg) = [a, b]"
    and "py_float env a = Some lo" and "py_float env b = Some hi" and "lo \<ge> hi"
    unfolding inverted_bounds_def
    by (auto split: list.splits option.splits)
  then have "init_out_of_range env (Entry_attributes now cfg) = Inl AttributeError"
    using pv by (intro init_out_of_range_inverted) (simp_all add: av)
  then show ?thesis by (simp add: Entry_init_out_of_range [OF c])
qed




text \<open>
  The three \<open>raise _EntryException\<close> of the constructor format \<open>self._pv\<close> (directly or
  through \<open>__str__\<close>) into their text before \<open>self._pv\<close> is assigned, so an unsupported
  name, unsorted thresholds and inverted bounds end in AttributeError.
\<close>

lemma construction_attribute_error:
  assumes "names_distinct env"
    and "unsupported_condition env cfg \<or> unsorted_thresholds env cfg \<or> inverted_bounds env cfg"
  shows "Entry_init env now conn cfg = Inl AttributeError"
  using assms unsupported_raises [of env cfg now conn] unsorted_raises [of env cfg now conn]
    inverted_raises [of env cfg now conn]
  by blast

end
